theory Spec2Isabelle
  imports Main "HOL-Library.Sublist"
begin

section \<open>Strings and contact records\<close>

text \<open>
  A JavaScript string is modelled as a \<^typ>\<open>string\<close>; each character stands for one
  UTF-16 code unit below 256. The character classes are those of the regular expressions
  in the source: \<open>\d\<close> is \<open>[0-9]\<close>, \<open>\w\<close> is \<open>[A-Za-z0-9_]\<close> and \<open>\s\<close> is the white
  space of ECMAScript (restricted to code units below 256), which is also what
  \<open>String.prototype.trim\<close> removes.
\<close>

definition isDigit :: "char \<Rightarrow> bool" where
  "isDigit c = (c \<in> set ''0123456789'')"

definition isWordChar :: "char \<Rightarrow> bool" where
  "isWordChar c =
     (c \<in> set ''abcdefghijklmnopqrstuvwxyzABCDEFGHIJKLMNOPQRSTUVWXYZ0123456789_'')"

definition isSpaceChar :: "char \<Rightarrow> bool" where
  "isSpaceChar c = ((of_char c :: nat) \<in> {9, 10, 11, 12, 13, 32, 160})"

definition isKeyChar :: "char \<Rightarrow> bool" where
  "isKeyChar c = (isWordChar c \<or> isSpaceChar c)"

definition trim :: "string \<Rightarrow> string" where
  "trim s = rev (dropWhile isSpaceChar (rev (dropWhile isSpaceChar s)))"

definition startsWith :: "string \<Rightarrow> string \<Rightarrow> bool" where
  "startsWith s p = (take (length p) s = p)"

text \<open>
  A contact is a plain JavaScript object with string-valued properties. It is modelled by
  its own properties: \<open>c k\<close> is \<open>None\<close> where the object has no own property \<open>k\<close>, and the
  value otherwise. A value is falsy when it is \<open>undefined\<close> or the empty string.
\<close>

type_synonym contact = "string \<Rightarrow> string option"

text \<open>
  Reading \<open>contact[k]\<close> goes on to the prototype when the object has no own property \<open>k\<close>.
  The contacts are made by object literals, by spreading and by \<open>JSON.parse\<close>, so their
  prototype is \<open>Object.prototype\<close>. Its members are functions, but for \<open>__proto__\<close>, which
  gives \<open>Object.prototype\<close> itself; each is listed with the text \<open>String\<close> makes of it (the
  text of a built-in function as V8 prints it), which is what \<open>String.prototype.replace\<close>
  puts in when a replacer function returns the member.
\<close>

definition native_function :: "string \<Rightarrow> string" where
  "native_function name = ''function '' @ name @ ''() { [native code] }''"

definition Object_prototype :: "string \<Rightarrow> string option" where
  "Object_prototype =
     map_of
       [(''constructor'', native_function ''Object''),
        (''__defineGetter__'', native_function ''__defineGetter__''),
        (''__defineSetter__'', native_function ''__defineSetter__''),
        (''hasOwnProperty'', native_function ''hasOwnProperty''),
        (''__lookupGetter__'', native_function ''__lookupGetter__''),
        (''__lookupSetter__'', native_function ''__lookupSetter__''),
        (''isPrototypeOf'', native_function ''isPrototypeOf''),
        (''propertyIsEnumerable'', native_function ''propertyIsEnumerable''),
        (''toString'', native_function ''toString''),
        (''valueOf'', native_function ''valueOf''),
        (''__proto__'', ''[object Object]''),
        (''toLocaleString'', native_function ''toLocaleString'')]"

definition get_property :: "contact \<Rightarrow> string \<Rightarrow> string option" where
  "get_property c k = (case c k of Some v \<Rightarrow> Some v | None \<Rightarrow> Object_prototype k)"

text \<open>\<open>contact.phone\<close>: \<open>Object.prototype\<close> has no member \<open>phone\<close>, so the value is the one of
  the own property.\<close>

definition phone :: "contact \<Rightarrow> string option" where
  "phone c = c ''phone''"

definition truthy :: "string option \<Rightarrow> bool" where
  "truthy v = (case v of None \<Rightarrow> False | Some s \<Rightarrow> s \<noteq> [])"

section \<open>phoneUtils.js\<close>

definition COUNTRY_CODES :: "string list" where
  "COUNTRY_CODES = [''+254'', ''+256'', ''+255'', ''+233'', ''+234'', ''+27'', ''+1'', ''+44'']"

text \<open>\<open>phone.replace(/[^\d+]/g, '')\<close>: every character that is neither a digit nor a plus
  sign is removed, wherever it stands.\<close>

definition removeNonDigitPlus :: "string \<Rightarrow> string" where
  "removeNonDigitPlus s = filter (\<lambda>c. isDigit c \<or> c = CHR ''+'') s"

text \<open>\<open>cleaned.replace(/\+/g, '')\<close>.\<close>

definition removePlus :: "string \<Rightarrow> string" where
  "removePlus s = filter (\<lambda>c. c \<noteq> CHR ''+'') s"

text \<open>The length check at the end of \<open>normalizePhone\<close>.\<close>

definition checkLength :: "string \<Rightarrow> string option" where
  "checkLength cleaned =
     (let digitsOnly = removePlus cleaned
      in if length digitsOnly < 7 \<or> length digitsOnly > 15 then None else Some cleaned)"

text \<open>\<open>normalizePhone(phone, defaultCountryCode)\<close>; \<open>null\<close> is \<open>None\<close>.\<close>

definition normalizePhone :: "string \<Rightarrow> string \<Rightarrow> string option" where
  "normalizePhone ph defaultCountryCode =
     (if ph = [] then None
      else
        let cleaned = removeNonDigitPlus ph
        in if startsWith cleaned ''+''
           then (if list_ex (startsWith cleaned) COUNTRY_CODES
                 then checkLength cleaned else None)
           else checkLength
                  (defaultCountryCode @
                    (if startsWith cleaned ''0'' then drop 1 cleaned else cleaned)))"

text \<open>The call with one argument takes the default parameter \<open>'+256'\<close>.\<close>

definition normalizePhone_default :: "string \<Rightarrow> string option" where
  "normalizePhone_default ph = normalizePhone ph ''+256''"

text \<open>The normalizer as the specification words it: only a leading plus sign survives the
  cleaning.\<close>

definition stripToDigitsLeadingPlus :: "string \<Rightarrow> string" where
  "stripToDigitsLeadingPlus s =
     (let kept = removeNonDigitPlus s
      in if startsWith kept ''+'' then CHR ''+'' # filter isDigit kept else filter isDigit kept)"

definition normalize_spec :: "string \<Rightarrow> string \<Rightarrow> string option" where
  "normalize_spec raw defaultCountryCode =
     (if raw = [] then None
      else
        let cleaned = stripToDigitsLeadingPlus raw
        in if startsWith cleaned ''+''
           then (if list_ex (startsWith cleaned) COUNTRY_CODES
                 then checkLength cleaned else None)
           else checkLength
                  (defaultCountryCode @
                    (if startsWith cleaned ''0'' then drop 1 cleaned else cleaned)))"

section \<open>templateUtils.js\<close>

subsection \<open>renderMessage\<close>

text \<open>
  The regular expression \<open>/{{?([\w\s]+)}}?/g\<close>. After the opening braces, the key is the
  longest run of key characters (a shorter run is followed by a key character, never by a
  closing brace, so backtracking into the run cannot succeed); one closing brace must
  follow, and a second one is taken when it is there. The result is the key, the closing
  braces matched and the rest of the text.
\<close>

definition match_key :: "string \<Rightarrow> (string \<times> string \<times> string) option" where
  "match_key s =
     (let key = takeWhile isKeyChar s; r = dropWhile isKeyChar s
      in if key = [] then None
         else (case r of
                 [] \<Rightarrow> None
               | c1 # r1 \<Rightarrow>
                   if c1 \<noteq> CHR ''}'' then None
                   else (case r1 of
                           [] \<Rightarrow> Some (key, ''}'', [])
                         | c2 # r2 \<Rightarrow>
                             if c2 = CHR ''}'' then Some (key, ''}}'', r2)
                             else Some (key, ''}'', r1))))"

text \<open>A match at the head of the text: the whole match, the captured key and the rest. The
  optional second opening brace is tried first; without it the key is tried right after
  the first brace.\<close>

definition match_placeholder :: "string \<Rightarrow> (string \<times> string \<times> string) option" where
  "match_placeholder s =
     (case s of
        [] \<Rightarrow> None
      | c # t \<Rightarrow>
          if c \<noteq> CHR ''{'' then None
          else (case (if startsWith t ''{'' then match_key (drop 1 t) else None) of
                  Some (key, close, r) \<Rightarrow> Some (''{{'' @ key @ close, key, r)
                | None \<Rightarrow>
                    (case match_key t of
                       Some (key, close, r) \<Rightarrow> Some (''{'' @ key @ close, key, r)
                     | None \<Rightarrow> None)))"

lemma match_key_shorter:
  "match_key s = Some (key, close, r) \<Longrightarrow> length r < length s"
proof -
  assume m: "match_key s = Some (key, close, r)"
  have "length (dropWhile isKeyChar s) \<le> length s"
    by (rule length_dropWhile_le)
  with m show ?thesis
    by (auto simp: match_key_def Let_def split: list.splits if_splits)
qed

lemma match_placeholder_shorter:
  "match_placeholder s = Some (m, key, r) \<Longrightarrow> length r < length s"
  by (cases s)
     (auto simp: match_placeholder_def split: if_splits option.splits
           dest!: match_key_shorter)

text \<open>\<open>template.replace(regex, f)\<close> with a replacer function \<open>f match key\<close>: matches are
  found from left to right, and the search goes on after each match.\<close>

function replace_placeholders :: "(string \<Rightarrow> string \<Rightarrow> string) \<Rightarrow> string \<Rightarrow> string" where
  "replace_placeholders f [] = []"
| "replace_placeholders f (c # t) =
     (case match_placeholder (c # t) of
        Some (m, key, r) \<Rightarrow> f m key @ replace_placeholders f r
      | None \<Rightarrow> c # replace_placeholders f t)"
  by pat_completeness auto
termination
  by (relation "measure (\<lambda>(f, s). length s)")
     (auto dest: match_placeholder_shorter)

text \<open>\<open>renderMessage(template, contact)\<close>; a \<open>null\<close> contact is \<open>None\<close>. The replacer reads
  \<open>contact[trimmedKey]\<close>, own or inherited.\<close>

definition renderMessage :: "string \<Rightarrow> contact option \<Rightarrow> string" where
  "renderMessage template contact =
     (case contact of
        None \<Rightarrow> []
      | Some c \<Rightarrow>
          if template = [] then []
          else replace_placeholders
                 (\<lambda>m key. case get_property c (trim key) of Some v \<Rightarrow> v | None \<Rightarrow> m)
                 template)"













subsection \<open>deduplicateContacts\<close>

text \<open>The body of \<open>contacts.forEach\<close>, with the set \<open>seen\<close> and the array
  \<open>deduplicated\<close> passed along.\<close>

fun forEach_dedupe :: "contact list \<Rightarrow> string set \<Rightarrow> contact list \<Rightarrow> contact list" where
  "forEach_dedupe [] seen deduplicated = deduplicated"
| "forEach_dedupe (c # cs) seen deduplicated =
     (case phone c of
        None \<Rightarrow> forEach_dedupe cs seen deduplicated
      | Some p \<Rightarrow>
          if p \<noteq> [] \<and> p \<notin> seen
          then forEach_dedupe cs (insert p seen) (deduplicated @ [c])
          else forEach_dedupe cs seen deduplicated)"

definition deduplicateContacts :: "contact list \<Rightarrow> contact list" where
  "deduplicateContacts cs = (if cs = [] then [] else forEach_dedupe cs {} [])"

text \<open>
  The specification's \<open>dedupe\<close>: a record is kept unless its phone has appeared on an
  earlier record of the sequence. The parameter \<open>admit\<close> says which records can be kept
  at all: every record in the specification's words.
\<close>

fun first_occurrences ::
  "(contact \<Rightarrow> bool) \<Rightarrow> contact list \<Rightarrow> contact list \<Rightarrow> contact list" where
  "first_occurrences admit earlier [] = []"
| "first_occurrences admit earlier (c # cs) =
     (if admit c \<and> phone c \<notin> set (map phone earlier) then [c] else [])
       @ first_occurrences admit (earlier @ [c]) cs"

definition dedupe_spec :: "contact list \<Rightarrow> contact list" where
  "dedupe_spec cs = first_occurrences (\<lambda>c. True) [] cs"

definition dedupe_with_phone :: "contact list \<Rightarrow> contact list" where
  "dedupe_with_phone cs = first_occurrences (\<lambda>c. truthy (phone c)) [] cs"

section \<open>whatsappUtils.js\<close>

text \<open>
  \<open>getRandomDelay(min, max)\<close> is \<open>Math.floor(Math.random() * (max - min + 1)) + min\<close>.
  The random source is a parameter: \<open>r\<close> is any natural number and
  \<open>r mod (max - min + 1)\<close> stands for \<open>Math.floor(Math.random() * (max - min + 1))\<close>, which
  is any value from \<open>0\<close> to \<open>max - min\<close>.
\<close>

definition getRandomDelay :: "nat \<Rightarrow> nat \<Rightarrow> nat \<Rightarrow> nat" where
  "getRandomDelay lo hi r = r mod (hi - lo + 1) + lo"

definition getCooldownDelay :: "nat \<Rightarrow> nat \<Rightarrow> nat \<Rightarrow> nat" where
  "getCooldownDelay messageCount cooldownInterval r =
     (if messageCount > 0 \<and> messageCount mod cooldownInterval = 0
      then getRandomDelay 30000 60000 r
      else 0)"

text \<open>\<open>Math.round(ms / 1000)\<close> on a natural number of milliseconds.\<close>

definition round_seconds :: "nat \<Rightarrow> nat" where
  "round_seconds ms = (ms + 500) div 1000"

text \<open>
  What a call of \<open>openWhatsAppWeb\<close> does is decided by the browser: \<open>window.open\<close> returns
  a window or \<open>null\<close> (a blocked popup), and \<open>encodeURIComponent\<close> can throw.
\<close>

datatype opened = Window | Null | Raised

definition openWhatsAppWeb :: "(nat \<Rightarrow> opened) \<Rightarrow> nat \<Rightarrow> string option \<Rightarrow> opened" where
  "openWhatsAppWeb browser i phoneNumber =
     (if \<not> truthy phoneNumber then Null else browser i)"

section \<open>BulkSender.jsx\<close>

subsection \<open>State\<close>

text \<open>
  The log entries. The texts of the source are kept as constructors; the time stamp of an
  entry is left out.
\<close>

datatype subject = SYSTEM | Phone "string option"

datatype status = Info | Sending | Sent | Failed

datatype detail =
    Starting nat
  | StoppedByUser
  | Preparing
  | OpenedInWhatsApp
  | PopupBlocked
  | ErrorMessage
  | CoolingDown nat
  | BatchComplete nat nat
  | PausedByUser
  | Resuming

datatype log_entry = LogEntry subject status detail

record progress =
  sent :: nat
  failed :: nat
  pending :: int
  total :: nat

text \<open>A report as \<open>finishSending\<close> stores it: \<open>totalContacts\<close>, \<open>sent\<close>, \<open>failed\<close> and the
  log; the time stamp is left out.\<close>

datatype report = Report nat nat nat "log_entry list"

text \<open>
  The user's clicks on the buttons of the component: Pause and Stop, shown while \<open>sending\<close>
  is true, and Start, shown while it is false; and the three places where the loop awaits
  a \<open>delay\<close>.
\<close>

datatype signal = Pause | Stop | Start

datatype wait = PausePoll | InterMessage | Cooldown

text \<open>
  What can be observed of one run of \<open>handleStart\<close>: the start of the attempt on contact
  \<open>i\<close>, a call of \<open>openWhatsAppWeb\<close> with its outcome, a progress state set with
  \<open>setProgress\<close>, and an awaited \<open>delay\<close> with its duration in milliseconds and the clicks
  that arrived while it was pending.
\<close>

datatype event =
    Attempt nat
  | Open nat opened
  | Progress progress
  | Await wait nat "signal list"

text \<open>
  The component's state: the React state \<open>sending\<close>, \<open>paused\<close>, \<open>progress\<close>, \<open>log\<close>, the two
  refs, and the reports collection in local storage. Three more fields serve the model:
  \<open>sched\<close> holds, for each \<open>delay\<close> the run will await, the clicks that arrive during it
  (no click arrives once the list is used up), \<open>trace\<close> collects the events of the run,
  newest first, and \<open>overlapped\<close> tells that Start has been clicked while the loop of the
  run was suspended in a \<open>delay\<close>, so that a second \<open>handleStart\<close> runs beside the first.
  The toasts are not modelled.
\<close>

record st =
  sending :: bool
  paused :: bool
  sendingRef :: bool
  pausedRef :: bool
  progress :: progress
  log :: "log_entry list"
  reports :: "report list"
  sched :: "signal list list"
  trace :: "event list"
  overlapped :: bool

text \<open>The props of the component.\<close>

record preview_message =
  msg_phone :: "string option"
  msg_contact :: contact
  message :: string

record props =
  contacts :: "contact list"
  messages :: "preview_message list"

text \<open>
  What the surroundings decide during one run: the browser's answer to the call for
  contact \<open>i\<close>, the random numbers drawn in iteration \<open>i\<close> for the delay between messages
  and for the cooldown, the clicks during each awaited delay, and whether local storage
  can be read and written.
\<close>

record env =
  browser :: "nat \<Rightarrow> opened"
  delay_draw :: "nat \<Rightarrow> nat"
  cooldown_draw :: "nat \<Rightarrow> nat"
  signals :: "signal list list"
  storage_ok :: bool

text \<open>The state when the component is mounted, with the reports already stored.\<close>

definition initial :: "props \<Rightarrow> report list \<Rightarrow> st" where
  "initial c rs =
     \<lparr>sending = False, paused = False, sendingRef = False, pausedRef = False,
      progress = \<lparr>sent = 0, failed = 0, pending = int (length (contacts c)),
                  total = length (contacts c)\<rparr>,
      log = [], reports = rs, sched = [], trace = [], overlapped = False\<rparr>"

subsection \<open>Handlers\<close>

definition addLog :: "subject \<Rightarrow> status \<Rightarrow> detail \<Rightarrow> st \<Rightarrow> st" where
  "addLog ph stat m s = s\<lparr>log := LogEntry ph stat m # take 99 (log s)\<rparr>"

definition emit :: "event \<Rightarrow> st \<Rightarrow> st" where
  "emit ev s = s\<lparr>trace := ev # trace s\<rparr>"

definition setProgress :: "props \<Rightarrow> nat \<Rightarrow> nat \<Rightarrow> st \<Rightarrow> st" where
  "setProgress c nsent nfailed s =
     (let p = \<lparr>sent = nsent, failed = nfailed,
                pending = int (length (contacts c)) - int nsent - int nfailed,
                total = length (contacts c)\<rparr>
      in emit (Progress p) (s\<lparr>progress := p\<rparr>))"

definition handlePause :: "st \<Rightarrow> st" where
  "handlePause s =
     (let s' = s\<lparr>paused := \<not> paused s, pausedRef := \<not> paused s\<rparr>
      in if \<not> paused s then addLog SYSTEM Info PausedByUser s'
         else addLog SYSTEM Info Resuming s')"

definition handleStop :: "st \<Rightarrow> st" where
  "handleStop s = s\<lparr>sending := False, sendingRef := False, pausedRef := False, paused := False\<rparr>"

text \<open>
  A click while the loop is suspended in a \<open>delay\<close>. The Pause and Stop buttons are rendered
  only while \<open>sending\<close> is true, and the Start button only while it is false, which during
  a run is so after a click on Stop. A click on Start then calls \<open>handleStart\<close> a second
  time: it sets \<open>sendingRef\<close> again and runs a loop of its own, side by side with the loop
  that is still suspended. The model follows one loop only: the click is recorded in
  \<open>overlapped\<close>, and the run of the model ends there. (The button is disabled when
  \<open>progressPercent\<close> is \<open>100\<close>; whether it is at that moment is not looked at, every click on
  the rendered button counts.)
\<close>

definition click :: "signal \<Rightarrow> st \<Rightarrow> st" where
  "click sg s =
     (case sg of
        Pause \<Rightarrow> if sending s then handlePause s else s
      | Stop \<Rightarrow> if sending s then handleStop s else s
      | Start \<Rightarrow> if sending s then s else s\<lparr>overlapped := True\<rparr>)"

text \<open>\<open>await delay(ms)\<close>: the clicks that arrive while the loop is suspended are handled,
  then the loop goes on.\<close>

definition next_signals :: "st \<Rightarrow> signal list" where
  "next_signals s = (case sched s of [] \<Rightarrow> [] | x # xs \<Rightarrow> x)"

definition delay :: "wait \<Rightarrow> nat \<Rightarrow> st \<Rightarrow> st" where
  "delay w ms s =
     emit (Await w ms (next_signals s))
       (fold click (next_signals s) (s\<lparr>sched := tl (sched s)\<rparr>))"

lemma sched_addLog [simp]: "sched (addLog ph stat m s) = sched s"
  by (simp add: addLog_def)

lemma sched_click [simp]: "sched (click sg s) = sched s"
  by (cases sg) (simp_all add: click_def handlePause_def handleStop_def Let_def)

lemma sched_fold_click [simp]: "sched (fold click sigs s) = sched s"
  by (induction sigs arbitrary: s) simp_all

lemma sched_delay [simp]: "sched (delay w ms s) = tl (sched s)"
  by (simp add: delay_def emit_def)

subsection \<open>The loop of handleStart\<close>

text \<open>
  A run returns, or it stays for ever in the loop that polls the pause flag, which happens
  when the loop is paused and no click is left to come, or it is overlapped by a second
  \<open>handleStart\<close>: the state is then the one after the \<open>delay\<close> during which Start was
  clicked, and what the two loops do from there on is not part of the model.
\<close>

datatype 'a ending = Returned 'a | PollsForever 'a | Overlapped 'a

fun state_of :: "'a ending \<Rightarrow> 'a" where
  "state_of (Returned s) = s"
| "state_of (PollsForever s) = s"
| "state_of (Overlapped s) = s"

fun overlapping :: "'a ending \<Rightarrow> bool" where
  "overlapping (Overlapped s) = True"
| "overlapping r = False"

text \<open>How one pass through the body of the \<open>for\<close> loop ends: the loop goes on with the
  next index, it is left with \<open>break\<close>, or the pass never ends.\<close>

datatype flow = Next nat nat st | Break nat nat st | Hang st

fun flow_state :: "flow \<Rightarrow> st" where
  "flow_state (Next nsent nfailed s) = s"
| "flow_state (Break nsent nfailed s) = s"
| "flow_state (Hang s) = s"

text \<open>\<open>while (pausedRef.current) { if (!sendingRef.current) break; await delay(500); }\<close>\<close>

function pause_loop :: "st \<Rightarrow> st ending" where
  "pause_loop s =
     (if pausedRef s
      then (if \<not> sendingRef s then Returned s
            else if sched s = [] then PollsForever s
            else pause_loop (delay PausePoll 500 s))
      else Returned s)"
  by pat_completeness auto
termination
  by (relation "measure (\<lambda>s. length (sched s))") auto

declare pause_loop.simps [simp del]

text \<open>\<open>for (let s = ...; s > 0; s--) { if (!sendingRef.current) break; await delay(1000); }\<close>\<close>

fun countdown :: "nat \<Rightarrow> st \<Rightarrow> st" where
  "countdown 0 s = s"
| "countdown (Suc n) s =
     (if \<not> sendingRef s then s else countdown n (delay InterMessage 1000 s))"

text \<open>The \<open>catch\<close> block.\<close>

definition catch_error :: "props \<Rightarrow> contact \<Rightarrow> nat \<Rightarrow> nat \<Rightarrow> st \<Rightarrow> flow" where
  "catch_error c contact nsent nfailed s =
     Next nsent (nfailed + 1)
       (setProgress c nsent (nfailed + 1)
          (addLog (Phone (phone contact)) Failed ErrorMessage s))"

text \<open>The delay logic after an attempt that did not throw.\<close>

definition pace :: "props \<Rightarrow> env \<Rightarrow> nat \<Rightarrow> nat \<Rightarrow> nat \<Rightarrow> st \<Rightarrow> flow" where
  "pace c e i nsent nfailed s =
     (if i < length (contacts c) - 1
      then
        let randomDelay = getRandomDelay 5000 15000 (delay_draw e i);
            s1 = countdown (round_seconds randomDelay) s
        in if \<not> sendingRef s1 then Break nsent nfailed s1
           else
             let cooldown = getCooldownDelay nsent 20 (cooldown_draw e i)
             in if cooldown > 0
                then Next nsent nfailed
                       (delay Cooldown cooldown
                          (addLog SYSTEM Info (CoolingDown (round_seconds cooldown)) s1))
                else Next nsent nfailed s1
      else Next nsent nfailed s)"

text \<open>
  The \<open>try\<close> block for contact \<open>i\<close>. When \<open>messages\<close> is shorter than \<open>contacts\<close>,
  \<open>messages[i]\<close> is \<open>undefined\<close> and reading its \<open>message\<close> throws before the call.
\<close>

definition attempt :: "props \<Rightarrow> env \<Rightarrow> nat \<Rightarrow> nat \<Rightarrow> nat \<Rightarrow> st \<Rightarrow> flow" where
  "attempt c e i nsent nfailed s =
     (let contact = contacts c ! i;
          s1 = addLog (Phone (phone contact)) Sending Preparing (emit (Attempt i) s)
      in if \<not> i < length (messages c) then catch_error c contact nsent nfailed s1
         else
           let r = openWhatsAppWeb (browser e) i (phone contact);
               s2 = emit (Open i r) s1
           in (case r of
                 Raised \<Rightarrow> catch_error c contact nsent nfailed s2
               | Window \<Rightarrow>
                   pace c e i (nsent + 1) nfailed
                     (setProgress c (nsent + 1) nfailed
                        (addLog (Phone (phone contact)) Sent OpenedInWhatsApp s2))
               | Null \<Rightarrow>
                   pace c e i nsent (nfailed + 1)
                     (setProgress c nsent (nfailed + 1)
                        (addLog (Phone (phone contact)) Failed PopupBlocked s2))))"

text \<open>The body of the \<open>for\<close> loop: the stop check, the pause loop, the second stop check
  and the attempt. (The pause loop has two endings; the third case only completes the
  case distinction.)\<close>

definition iteration :: "props \<Rightarrow> env \<Rightarrow> nat \<Rightarrow> nat \<Rightarrow> nat \<Rightarrow> st \<Rightarrow> flow" where
  "iteration c e i nsent nfailed s =
     (if \<not> sendingRef s then Break nsent nfailed (addLog SYSTEM Info StoppedByUser s)
      else (case pause_loop s of
              PollsForever s1 \<Rightarrow> Hang s1
            | Returned s1 \<Rightarrow>
                if \<not> sendingRef s1 then Break nsent nfailed s1
                else attempt c e i nsent nfailed s1
            | Overlapped s1 \<Rightarrow> Break nsent nfailed s1))"

text \<open>\<open>for (let i = startIndex; i < contacts.length; i++)\<close>; the result holds the counters
  \<open>sent\<close> and \<open>failed\<close> after the loop. The loop of the model ends after a pass during
  which a second \<open>handleStart\<close> was started.\<close>

function send_loop ::
  "props \<Rightarrow> env \<Rightarrow> nat \<Rightarrow> nat \<Rightarrow> nat \<Rightarrow> st \<Rightarrow> (nat \<times> nat \<times> st) ending" where
  "send_loop c e i nsent nfailed s =
     (if i < length (contacts c)
      then (case iteration c e i nsent nfailed s of
              Next nsent' nfailed' s' \<Rightarrow>
                if overlapped s' then Overlapped (nsent', nfailed', s')
                else send_loop c e (Suc i) nsent' nfailed' s'
            | Break nsent' nfailed' s' \<Rightarrow>
                if overlapped s' then Overlapped (nsent', nfailed', s')
                else Returned (nsent', nfailed', s')
            | Hang s' \<Rightarrow> PollsForever (nsent, nfailed, s'))
      else Returned (nsent, nfailed, s))"
  by pat_completeness auto
termination
  by (relation "measure (\<lambda>(c, e, i, nsent, nfailed, s). length (contacts c) - i)") auto

declare send_loop.simps [simp del]

text \<open>
  \<open>finishSending(sent, failed)\<close>. The \<open>log\<close> it stores is the one of the render in which
  \<open>handleStart\<close> was created, passed here as \<open>log0\<close>. A failure of local storage is caught
  and leaves the reports as they are.
\<close>

definition finishSending :: "props \<Rightarrow> env \<Rightarrow> log_entry list \<Rightarrow> nat \<Rightarrow> nat \<Rightarrow> st \<Rightarrow> st" where
  "finishSending c e log0 nsent nfailed s =
     (let s1 = (if storage_ok e
                then s\<lparr>reports := reports s
                        @ [Report (length (contacts c)) nsent nfailed (take 50 log0)]\<rparr>
                else s);
          s2 = s1\<lparr>sending := False, sendingRef := False\<rparr>
      in if nsent + nfailed = length (contacts c)
         then addLog SYSTEM Info (BatchComplete nsent nfailed) s2
         else s2)"

text \<open>The fields that serve the model at the start of a run: the clicks of \<open>signals e\<close>
  are to come, the trace is empty and no second \<open>handleStart\<close> runs.\<close>

definition fresh :: "env \<Rightarrow> st \<Rightarrow> st" where
  "fresh e s0 = s0\<lparr>sched := signals e, trace := [], overlapped := False\<rparr>"

text \<open>The state at the head of the loop in \<open>handleStart\<close>.\<close>

definition started :: "props \<Rightarrow> env \<Rightarrow> st \<Rightarrow> st" where
  "started c e s0 =
     addLog SYSTEM Info (Starting (length (contacts c)))
       ((fresh e s0)\<lparr>sending := True, sendingRef := True, pausedRef := False\<rparr>)"

text \<open>\<open>handleStart\<close>: the guard, the start, the loop from \<open>startIndex\<close> and
  \<open>finishSending\<close>.\<close>

definition handleStart :: "props \<Rightarrow> env \<Rightarrow> st \<Rightarrow> st ending" where
  "handleStart c e s0 =
     (if contacts c = [] \<or> messages c = []
      then Returned (fresh e s0)
      else
        let nsent = sent (progress s0);
            nfailed = failed (progress s0);
            startIndex = nsent + nfailed
        in (case send_loop c e startIndex nsent nfailed (started c e s0) of
              Returned (nsent', nfailed', s') \<Rightarrow>
                Returned (finishSending c e (log s0) nsent' nfailed' s')
            | PollsForever (nsent', nfailed', s') \<Rightarrow> PollsForever s'
            | Overlapped (nsent', nfailed', s') \<Rightarrow> Overlapped s'))"

text \<open>
  The Start button between runs. It is rendered when \<open>sending\<close> is false and is disabled
  when \<open>progressPercent\<close> is \<open>100\<close>, where \<open>progressPercent\<close> is
  \<open>Math.round(((progress.sent + progress.failed) / progress.total) * 100)\<close>, or \<open>0\<close> when
  \<open>progress.total\<close> is \<open>0\<close>. The source rounds a floating-point product; the model has the
  one case in which the product is exact, \<open>sent + failed = total\<close>, where the quotient is
  \<open>1\<close> and the result \<open>100\<close>, and takes the parameter \<open>rounded\<close> for what the source
  computes from the two numbers in every other case.
\<close>

definition progressPercent :: "(nat \<Rightarrow> nat \<Rightarrow> nat) \<Rightarrow> progress \<Rightarrow> nat" where
  "progressPercent rounded p =
     (if total p > 0
      then (if sent p + failed p = total p then 100 else rounded (sent p + failed p) (total p))
      else 0)"

definition start_button_enabled :: "(nat \<Rightarrow> nat \<Rightarrow> nat) \<Rightarrow> st \<Rightarrow> bool" where
  "start_button_enabled rounded s = (\<not> sending s \<and> progressPercent rounded (progress s) \<noteq> 100)"

text \<open>A click on the Start button between runs: \<open>handleStart\<close> is called when the button is
  rendered and enabled, and nothing happens otherwise.\<close>

definition clickStart :: "(nat \<Rightarrow> nat \<Rightarrow> nat) \<Rightarrow> props \<Rightarrow> env \<Rightarrow> st \<Rightarrow> st ending" where
  "clickStart rounded c e s =
     (if start_button_enabled rounded s then handleStart c e s else Returned (fresh e s))"

subsection \<open>Reading a trace\<close>

text \<open>The events of a run in the order in which they happened.\<close>

definition events :: "st ending \<Rightarrow> event list" where
  "events r = rev (trace (state_of r))"

text \<open>The states between runs: the mounted component, and the state in which a run has
  returned.\<close>

inductive idle :: "props \<Rightarrow> st \<Rightarrow> bool" for c :: props where
  mounted: "idle c (initial c rs)"
| returned: "idle c s \<Longrightarrow> handleStart c e s = Returned s' \<Longrightarrow> idle c s'"

text \<open>The invariant of the progress state.\<close>

definition progress_ok :: "props \<Rightarrow> progress \<Rightarrow> bool" where
  "progress_ok c p =
     (int (sent p) + int (failed p) + pending p = int (total p)
      \<and> total p = length (contacts c))"

fun event_ok :: "props \<Rightarrow> event \<Rightarrow> bool" where
  "event_ok c (Progress p) = progress_ok c p"
| "event_ok c ev = True"

text \<open>The durations of the three waits: the two polling intervals, and the window of the
  cooldown.\<close>

fun wait_ok :: "wait \<Rightarrow> nat \<Rightarrow> bool" where
  "wait_ok PausePoll ms = (ms = 500)"
| "wait_ok InterMessage ms = (ms = 1000)"
| "wait_ok Cooldown ms = (30000 \<le> ms \<and> ms \<le> 60000)"


fun is_await :: "event \<Rightarrow> bool" where
  "is_await (Await w ms sigs) = True"
| "is_await ev = False"

text \<open>
  A predicate on states is kept by the steps of the loop when writing a log entry keeps
  it, an awaited delay of a valid duration keeps it while the run is not stopped, recording
  an event other than a delay keeps it while the run is neither stopped nor paused, and
  setting a progress state that satisfies the invariant keeps it.
\<close>

definition kept_by_steps :: "props \<Rightarrow> (st \<Rightarrow> bool) \<Rightarrow> bool" where
  "kept_by_steps c J =
     ((\<forall>ph stat m s. J s \<longrightarrow> J (addLog ph stat m s))
      \<and> (\<forall>w ms s. J s \<longrightarrow> sendingRef s \<longrightarrow> wait_ok w ms \<longrightarrow> J (delay w ms s))
      \<and> (\<forall>ev s. J s \<longrightarrow> sendingRef s \<longrightarrow> \<not> pausedRef s \<longrightarrow> event_ok c ev
            \<longrightarrow> \<not> is_await ev \<longrightarrow> J (emit ev s))
      \<and> (\<forall>p s. J s \<longrightarrow> progress_ok c p \<longrightarrow> J (s\<lparr>progress := p\<rparr>)))"

text \<open>The progress invariant as a predicate on states: it holds of the progress state and
  of every progress state in the trace.\<close>

definition progress_kept :: "props \<Rightarrow> st \<Rightarrow> bool" where
  "progress_kept c s = (list_all (event_ok c) (trace s) \<and> progress_ok c (progress s))"









definition flags_kept :: "st \<Rightarrow> bool" where
  "flags_kept s =
     (sending s = sendingRef s \<and> paused s = pausedRef s \<and> (\<not> sendingRef s \<longrightarrow> \<not> pausedRef s))"


text \<open>
  The length of the wait between two messages. After a call of \<open>openWhatsAppWeb\<close> for
  contact \<open>i\<close> that did not throw, with a contact left after \<open>i\<close>, the loop counts down
  \<open>Math.round(randomDelay / 1000)\<close> seconds. Reading a list of events, \<open>seconds_due\<close> keeps
  the number of seconds of the wait that are still due: a call that starts a wait sets it,
  an awaited second takes one off, or all of them when Stop was clicked during it, and any
  other delay or attempt, or a further awaited second, is in order only when none is due.
  The waits of a list of events are full when the reading goes through and leaves no second
  due: no wait is cut short other than by Stop, and none is prolonged.
\<close>

definition full_wait :: "env \<Rightarrow> nat \<Rightarrow> nat" where
  "full_wait e i = round_seconds (getRandomDelay 5000 15000 (delay_draw e i))"

fun seconds_due :: "props \<Rightarrow> env \<Rightarrow> nat \<Rightarrow> event \<Rightarrow> nat option" where
  "seconds_due c e k (Attempt i) = (if k = 0 then Some 0 else None)"
| "seconds_due c e k (Open i r) =
     (if k = 0
      then Some (if r \<noteq> Raised \<and> Suc i < length (contacts c) then full_wait e i else 0)
      else None)"
| "seconds_due c e k (Progress p) = Some k"
| "seconds_due c e k (Await InterMessage ms sigs) =
     (if k = 0 then None else Some (if Stop \<in> set sigs then 0 else k - 1))"
| "seconds_due c e k (Await w ms sigs) = (if k = 0 then Some 0 else None)"

definition due_after :: "props \<Rightarrow> env \<Rightarrow> event list \<Rightarrow> nat option" where
  "due_after c e evs =
     fold (\<lambda>ev d. case d of None \<Rightarrow> None | Some k \<Rightarrow> seconds_due c e k ev) evs (Some 0)"


text \<open>The same for the trace of a state.\<close>

definition due_is :: "props \<Rightarrow> env \<Rightarrow> nat \<Rightarrow> st \<Rightarrow> bool" where
  "due_is c e k s = (due_after c e (rev (trace s)) = Some k)"

subsection \<open>Sample runs\<close>

text \<open>
  A contact and its message, a batch of \<open>n\<close> such contacts, and surroundings in which
  every window opens, every random draw is \<open>0\<close> (a delay of 5 seconds between messages and
  a cooldown of 30 seconds), the user clicks nothing and local storage works.
\<close>

definition amara :: contact where
  "amara = [''phone'' \<mapsto> ''+256712345678'', ''first_name'' \<mapsto> ''Amara'']"

definition greeting :: preview_message where
  "greeting = \<lparr>msg_phone = Some ''+256712345678'', msg_contact = amara, message = ''Hi Amara''\<rparr>"

definition batch :: "nat \<Rightarrow> props" where
  "batch n = \<lparr>contacts = replicate n amara, messages = replicate n greeting\<rparr>"

definition all_open :: env where
  "all_open = \<lparr>browser = (\<lambda>i. Window), delay_draw = (\<lambda>i. 0), cooldown_draw = (\<lambda>i. 0),
                signals = [], storage_ok = True\<rparr>"

text \<open>The state in which a run over one contact has returned, and the clicks of a user who
  lets \<open>n\<close> delays pass and clicks Stop during the next.\<close>

definition completed :: st where
  "completed = state_of (handleStart (batch 1) all_open (initial (batch 1) []))"


text \<open>The calls of \<open>openWhatsAppWeb\<close> and the cooldown delays of a list of events; the
  delays during which the user clicked; and whether each of those lasts at most one
  polling interval.\<close>

fun calls_and_cooldowns :: "event list \<Rightarrow> event list" where
  "calls_and_cooldowns [] = []"
| "calls_and_cooldowns (Open i r # evs) = Open i r # calls_and_cooldowns evs"
| "calls_and_cooldowns (Await Cooldown ms sigs # evs) =
     Await Cooldown ms sigs # calls_and_cooldowns evs"
| "calls_and_cooldowns (ev # evs) = calls_and_cooldowns evs"





section \<open>Properties of the normalizer\<close>

text \<open>The two examples of the specification: a local number gets the default country code,
  and a text without a digit is rejected.\<close>

lemma normalizePhone_examples:
  "normalizePhone ''0712345678'' ''+256'' = Some ''+256712345678''"
  "normalizePhone_default ''abc'' = None"
  by (simp_all add: normalizePhone_default_def normalizePhone_def removeNonDigitPlus_def
        isDigit_def startsWith_def checkLength_def removePlus_def)

text \<open>
  C9 fails in the code at the input \<open>07+12345678\<close> with the default country code \<open>+256\<close>.
  The cleaning \<open>phone.replace(/[^\d+]/g, '')\<close> keeps every plus sign, so the one inside the
  number survives: the code returns \<open>+2567+12345678\<close>, where stripping everything but the
  digits and a leading plus sign gives \<open>+256712345678\<close>.
\<close>

theorem normalizePhone_keeps_interior_plus:
  "normalizePhone ''07+12345678'' ''+256'' = Some ''+2567+12345678''
   \<and> normalize_spec ''07+12345678'' ''+256'' = Some ''+256712345678''"
  by (simp add: normalizePhone_def normalize_spec_def stripToDigitsLeadingPlus_def
        removeNonDigitPlus_def isDigit_def startsWith_def checkLength_def removePlus_def)

section \<open>Properties of the template engine\<close>

lemma not_key_brace [simp]: "\<not> isKeyChar (CHR ''}'')" "\<not> isKeyChar (CHR ''{'')"
  by (simp_all add: isKeyChar_def isWordChar_def isSpaceChar_def)

















lemmas render_defs =
  renderMessage_def match_placeholder_def match_key_def startsWith_def get_property_def
  Object_prototype_def native_function_def isKeyChar_def isWordChar_def isSpaceChar_def trim_def




text \<open>
  A placeholder that names a member of \<open>Object.prototype\<close> is replaced although the
  contact has no such field: \<open>contact[trimmedKey]\<close> finds the inherited member, and the
  text of the function is put in.
\<close>

lemma renderMessage_inherited_member:
  "renderMessage ''Hi {constructor}'' (Some [''first_name'' \<mapsto> ''Amara''])
     = ''Hi function Object() { [native code] }''"
  by (simp add: render_defs)

section \<open>Properties of deduplication\<close>

lemma first_occurrences_set:
  "x \<in> set (first_occurrences admit earlier cs) \<Longrightarrow>
   x \<in> set cs \<and> admit x \<and> phone x \<notin> phone ` set earlier"
proof (induction cs arbitrary: earlier)
  case Nil
  then show ?case by simp
next
  case (Cons c cs)
  show ?case
  proof (cases "x \<in> set (first_occurrences admit (earlier @ [c]) cs)")
    case True
    from Cons.IH [OF True] show ?thesis by auto
  next
    case False
    with Cons.prems show ?thesis by (auto split: if_splits)
  qed
qed

lemma first_occurrences_distinct:
  "distinct (map phone (first_occurrences admit earlier cs))"
proof (induction cs arbitrary: earlier)
  case Nil
  then show ?case by simp
next
  case (Cons c cs)
  have "phone c \<notin> phone ` set (first_occurrences admit (earlier @ [c]) cs)"
  proof
    assume "phone c \<in> phone ` set (first_occurrences admit (earlier @ [c]) cs)"
    then obtain y where y: "y \<in> set (first_occurrences admit (earlier @ [c]) cs)"
      and py: "phone y = phone c" by auto
    from first_occurrences_set [OF y] py show False by auto
  qed
  with Cons.IH [of "earlier @ [c]"] show ?case by auto
qed

lemma first_occurrences_subseq:
  "subseq (first_occurrences admit earlier cs) cs"
  by (induction cs arbitrary: earlier) (auto intro: subseq_Cons')

lemma forEach_dedupe_first_occurrences:
  "seen = {p. p \<noteq> [] \<and> Some p \<in> set (map phone earlier)} \<Longrightarrow>
   forEach_dedupe cs seen out
     = out @ first_occurrences (\<lambda>c. truthy (phone c)) earlier cs"
proof (induction cs arbitrary: seen out earlier)
  case Nil
  then show ?case by simp
next
  case (Cons c cs)
  show ?case
  proof (cases "phone c")
    case None
    have "forEach_dedupe cs seen out
            = out @ first_occurrences (\<lambda>c. truthy (phone c)) (earlier @ [c]) cs"
      by (rule Cons.IH) (use Cons.prems None in auto)
    with None show ?thesis by (simp add: truthy_def)
  next
    case (Some p)
    show ?thesis
    proof (cases "p \<noteq> [] \<and> p \<notin> seen")
      case True
      have "forEach_dedupe cs (insert p seen) (out @ [c])
              = (out @ [c]) @ first_occurrences (\<lambda>c. truthy (phone c)) (earlier @ [c]) cs"
        by (rule Cons.IH) (use Cons.prems Some True in auto)
      moreover have "phone c \<notin> set (map phone earlier)"
        using True Some Cons.prems by auto
      moreover have "truthy (phone c)" using True Some by (simp add: truthy_def)
      ultimately show ?thesis using Some True by simp
    next
      case False
      have "forEach_dedupe cs seen out
              = out @ first_occurrences (\<lambda>c. truthy (phone c)) (earlier @ [c]) cs"
        by (rule Cons.IH) (use Cons.prems Some False in auto)
      moreover have "\<not> (truthy (phone c) \<and> phone c \<notin> set (map phone earlier))"
        using False Some Cons.prems by (auto simp: truthy_def)
      ultimately show ?thesis using Some False by auto
    qed
  qed
qed

lemma deduplicateContacts_eq: "deduplicateContacts cs = dedupe_with_phone cs"
  using forEach_dedupe_first_occurrences [of "{}" "[]" cs "[]"]
  by (simp add: deduplicateContacts_def dedupe_with_phone_def)

text \<open>
  C7, as the code has it. For every list of contact records, \<open>deduplicateContacts\<close>
  drops exactly the records whose phone is missing or empty and the records whose phone
  has appeared on an earlier record; the records kept are in their original order, and no
  two of them have the same phone.
\<close>

theorem dedupe_first_phone_wins:
  "deduplicateContacts cs = dedupe_with_phone cs
   \<and> subseq (deduplicateContacts cs) cs
   \<and> distinct (map phone (deduplicateContacts cs))"
  by (simp add: deduplicateContacts_eq dedupe_with_phone_def first_occurrences_subseq
        first_occurrences_distinct)

theorem dedupe_first_phone_wins_witness:
  "deduplicateContacts
     [[''phone'' \<mapsto> ''+256712345678'', ''name'' \<mapsto> ''A''],
      [''name'' \<mapsto> ''C''],
      [''phone'' \<mapsto> ''+256712345678'', ''name'' \<mapsto> ''B'']]
   = [[''phone'' \<mapsto> ''+256712345678'', ''name'' \<mapsto> ''A'']]"
  using dedupe_first_phone_wins
    [of "[[''phone'' \<mapsto> ''+256712345678'', ''name'' \<mapsto> ''A''],
          [''name'' \<mapsto> ''C''],
          [''phone'' \<mapsto> ''+256712345678'', ''name'' \<mapsto> ''B'']]"]
  by (simp add: dedupe_with_phone_def phone_def truthy_def)

text \<open>
  C7 as stated fails: a record without a phone is dropped although no earlier record has
  its phone. The list holds one record, with a name and no phone.
\<close>

theorem dedupe_blank_phone_counterexample:
  "deduplicateContacts [[''name'' \<mapsto> ''C'']] = []
   \<and> dedupe_spec [[''name'' \<mapsto> ''C'']] = [[''name'' \<mapsto> ''C'']]"
  by (simp add: deduplicateContacts_def dedupe_spec_def phone_def)

lemma dedupe_output_truthy:
  "x \<in> set (deduplicateContacts cs) \<Longrightarrow> truthy (phone x)"
  using first_occurrences_set [of x "\<lambda>c. truthy (phone c)" "[]" cs]
  by (simp add: deduplicateContacts_eq dedupe_with_phone_def)

text \<open>
  C10. Every record of the deduplicated list has a phone that is neither missing nor
  empty; a record of the input without a phone is not in the output, even when it is the
  first of the list.
\<close>

theorem dedupe_drops_blank:
  "(\<forall>c \<in> set (deduplicateContacts cs). truthy (phone c))
   \<and> (\<forall>c \<in> set cs. \<not> truthy (phone c) \<longrightarrow> c \<notin> set (deduplicateContacts cs))"
  using dedupe_output_truthy by blast

theorem dedupe_drops_blank_witness:
  "\<not> truthy (phone [''name'' \<mapsto> ''C''])
   \<and> truthy (phone [''phone'' \<mapsto> ''+256712345678''])
   \<and> [''name'' \<mapsto> ''C'']
       \<notin> set (deduplicateContacts [[''name'' \<mapsto> ''C''], [''phone'' \<mapsto> ''+256712345678'']])"
  using dedupe_drops_blank [of "[[''name'' \<mapsto> ''C''], [''phone'' \<mapsto> ''+256712345678'']]"]
  by (simp add: phone_def truthy_def)

section \<open>Properties of the dispatch loop\<close>

subsection \<open>What the handlers change\<close>

lemma addLog_fields [simp]:
  "trace (addLog ph stat m s) = trace s"
  "progress (addLog ph stat m s) = progress s"
  "sending (addLog ph stat m s) = sending s"
  "sendingRef (addLog ph stat m s) = sendingRef s"
  "pausedRef (addLog ph stat m s) = pausedRef s"
  "paused (addLog ph stat m s) = paused s"
  "reports (addLog ph stat m s) = reports s"
  by (simp_all add: addLog_def)

lemma emit_fields [simp]:
  "trace (emit ev s) = ev # trace s"
  "progress (emit ev s) = progress s"
  "sending (emit ev s) = sending s"
  "sendingRef (emit ev s) = sendingRef s"
  "pausedRef (emit ev s) = pausedRef s"
  "paused (emit ev s) = paused s"
  "reports (emit ev s) = reports s"
  "sched (emit ev s) = sched s"
  "log (emit ev s) = log s"
  by (simp_all add: emit_def)

lemma setProgress_fields [simp]:
  "trace (setProgress c ns nf s) =
     Progress \<lparr>sent = ns, failed = nf,
               pending = int (length (contacts c)) - int ns - int nf,
               total = length (contacts c)\<rparr> # trace s"
  "progress (setProgress c ns nf s) =
     \<lparr>sent = ns, failed = nf,
      pending = int (length (contacts c)) - int ns - int nf,
      total = length (contacts c)\<rparr>"
  "sending (setProgress c ns nf s) = sending s"
  "sendingRef (setProgress c ns nf s) = sendingRef s"
  "pausedRef (setProgress c ns nf s) = pausedRef s"
  "reports (setProgress c ns nf s) = reports s"
  by (simp_all add: setProgress_def Let_def)

lemma click_fields [simp]:
  "trace (click sg s) = trace s"
  "progress (click sg s) = progress s"
  "reports (click sg s) = reports s"
  by (cases sg; simp add: click_def handlePause_def handleStop_def Let_def addLog_def)+

lemma fold_click_fields [simp]:
  "trace (fold click sigs s) = trace s"
  "progress (fold click sigs s) = progress s"
  "reports (fold click sigs s) = reports s"
  by (induction sigs arbitrary: s) simp_all

lemma delay_fields [simp]:
  "trace (delay w ms s) = Await w ms (next_signals s) # trace s"
  "progress (delay w ms s) = progress s"
  "reports (delay w ms s) = reports s"
  by (simp_all add: delay_def)

subsection \<open>Invariants of the loop\<close>

lemma countdown_preserves:
  assumes wait: "\<And>s. J s \<Longrightarrow> sendingRef s \<Longrightarrow> J (delay InterMessage 1000 s)"
  shows "J s \<Longrightarrow> J (countdown n s)"
  by (induction n arbitrary: s) (auto intro: wait)

lemma pause_loop_preserves:
  assumes wait: "\<And>s. J s \<Longrightarrow> sendingRef s \<Longrightarrow> J (delay PausePoll 500 s)"
  shows "J s \<Longrightarrow> J (state_of (pause_loop s))"
proof (induction s rule: pause_loop.induct)
  case (1 s)
  show ?case
  proof (cases "pausedRef s \<and> sendingRef s \<and> sched s \<noteq> []")
    case True
    then have "J (delay PausePoll 500 s)" using wait "1.prems" by blast
    with True "1.IH" show ?thesis by (subst pause_loop.simps) simp
  next
    case False
    with "1.prems" show ?thesis by (subst pause_loop.simps) auto
  qed
qed

lemma pause_loop_returned:
  "pause_loop s = Returned s' \<Longrightarrow> sendingRef s' \<Longrightarrow> \<not> pausedRef s'"
proof (induction s rule: pause_loop.induct)
  case (1 s)
  show ?case
  proof (cases "pausedRef s \<and> sendingRef s \<and> sched s \<noteq> []")
    case True
    with "1.prems"(1) have "pause_loop (delay PausePoll 500 s) = Returned s'"
      by (subst (asm) pause_loop.simps) simp
    with True "1.IH" "1.prems"(2) show ?thesis by simp
  next
    case False
    with "1.prems" show ?thesis by (subst (asm) pause_loop.simps) (auto split: if_splits)
  qed
qed

lemma pause_loop_ending: "pause_loop s \<noteq> Overlapped s'"
proof (induction s rule: pause_loop.induct)
  case (1 s)
  show ?case
  proof (cases "pausedRef s \<and> sendingRef s \<and> sched s \<noteq> []")
    case True
    with "1.IH" show ?thesis by (subst pause_loop.simps) simp
  next
    case False
    then show ?thesis by (subst pause_loop.simps) auto
  qed
qed

lemma cooldown_window:
  "0 < getCooldownDelay n k r \<Longrightarrow> wait_ok Cooldown (getCooldownDelay n k r)"
proof -
  have "r mod 30001 \<le> 30000"
    using mod_less_divisor [of 30001 r] by linarith
  then show "0 < getCooldownDelay n k r \<Longrightarrow> wait_ok Cooldown (getCooldownDelay n k r)"
    by (auto simp: getCooldownDelay_def getRandomDelay_def split: if_splits)
qed

lemma kept_logs: "kept_by_steps c J \<Longrightarrow> J s \<Longrightarrow> J (addLog ph stat m s)"
  by (simp add: kept_by_steps_def)

lemma kept_wait:
  "kept_by_steps c J \<Longrightarrow> J s \<Longrightarrow> sendingRef s \<Longrightarrow> wait_ok w ms \<Longrightarrow> J (delay w ms s)"
  by (simp add: kept_by_steps_def)

lemma kept_emit:
  "kept_by_steps c J \<Longrightarrow> J s \<Longrightarrow> sendingRef s \<Longrightarrow> \<not> pausedRef s \<Longrightarrow> event_ok c ev
   \<Longrightarrow> \<not> is_await ev \<Longrightarrow> J (emit ev s)"
  by (simp add: kept_by_steps_def)

lemma kept_setProgress:
  assumes k: "kept_by_steps c J" and J: "J s" and run: "sendingRef s" "\<not> pausedRef s"
  shows "J (setProgress c a b s)"
proof -
  let ?p = "\<lparr>sent = a, failed = b, pending = int (length (contacts c)) - int a - int b,
             total = length (contacts c)\<rparr>"
  have ok: "progress_ok c ?p" by (simp add: progress_ok_def)
  from k J ok have "J (s\<lparr>progress := ?p\<rparr>)" by (simp add: kept_by_steps_def)
  with k have "J (emit (Progress ?p) (s\<lparr>progress := ?p\<rparr>))"
    by (rule kept_emit) (use run ok in simp_all)
  then show ?thesis by (simp add: setProgress_def Let_def)
qed

lemma pace_keeps:
  assumes logs: "\<And>ph stat m s. J s \<Longrightarrow> J (addLog ph stat m s)"
    and wait: "\<And>w ms s. J s \<Longrightarrow> sendingRef s \<Longrightarrow> wait_ok w ms \<Longrightarrow> J (delay w ms s)"
    and J: "J s"
  shows "J (flow_state (pace c e i ns nf s))"
proof -
  let ?s1 = "countdown (round_seconds (getRandomDelay 5000 15000 (delay_draw e i))) s"
  have J1: "J ?s1"
    by (rule countdown_preserves [where J = J]) (auto intro: wait J)
  let ?cd = "getCooldownDelay ns 20 (cooldown_draw e i)"
  have "J (delay Cooldown ?cd (addLog SYSTEM Info (CoolingDown (round_seconds ?cd)) ?s1))"
    if "sendingRef ?s1" "0 < ?cd"
    by (rule wait) (use that J1 logs cooldown_window in auto)
  with J J1 show ?thesis
    by (auto simp: pace_def Let_def)
qed

lemma pace_preserves:
  assumes k: "kept_by_steps c J" and J: "J s"
  shows "J (flow_state (pace c e i ns nf s))"
  by (rule pace_keeps [where J = J]) (auto intro: kept_logs [OF k] kept_wait [OF k] J)

lemma attempt_preserves:
  assumes k: "kept_by_steps c J" and J: "J s" and run: "sendingRef s" "\<not> pausedRef s"
  shows "J (flow_state (attempt c e i ns nf s))"
proof -
  let ?s1 = "addLog (Phone (phone (contacts c ! i))) Sending Preparing (emit (Attempt i) s)"
  have J1: "J ?s1"
    by (rule kept_logs [OF k], rule kept_emit [OF k]) (use J run in auto)
  let ?r = "openWhatsAppWeb (browser e) i (phone (contacts c ! i))"
  let ?s2 = "emit (Open i ?r) ?s1"
  have J2: "J ?s2" by (rule kept_emit [OF k]) (use J1 run in auto)
  have c1: "J (flow_state (catch_error c (contacts c ! i) ns nf ?s1))"
    unfolding catch_error_def flow_state.simps
    by (rule kept_setProgress [OF k], rule kept_logs [OF k J1]) (use run in auto)
  have c2: "J (flow_state (catch_error c (contacts c ! i) ns nf ?s2))"
    unfolding catch_error_def flow_state.simps
    by (rule kept_setProgress [OF k], rule kept_logs [OF k J2]) (use run in auto)
  have w: "J (flow_state (pace c e i (ns + 1) nf
             (setProgress c (ns + 1) nf
                (addLog (Phone (phone (contacts c ! i))) Sent OpenedInWhatsApp ?s2))))"
    by (rule pace_preserves [OF k], rule kept_setProgress [OF k], rule kept_logs [OF k J2])
       (use run in auto)
  have n: "J (flow_state (pace c e i ns (nf + 1)
             (setProgress c ns (nf + 1)
                (addLog (Phone (phone (contacts c ! i))) Failed PopupBlocked ?s2))))"
    by (rule pace_preserves [OF k], rule kept_setProgress [OF k], rule kept_logs [OF k J2])
       (use run in auto)
  show ?thesis
  proof (cases "i < length (messages c)")
    case False
    with c1 show ?thesis by (simp add: attempt_def Let_def)
  next
    case True
    show ?thesis
    proof (cases ?r)
      case Window
      with True w show ?thesis by (simp add: attempt_def Let_def)
    next
      case Null
      with True n show ?thesis by (simp add: attempt_def Let_def)
    next
      case Raised
      with True c2 show ?thesis by (simp add: attempt_def Let_def)
    qed
  qed
qed

lemma iteration_preserves:
  assumes k: "kept_by_steps c J" and J: "J s"
  shows "J (flow_state (iteration c e i ns nf s))"
proof -
  have P: "J (state_of (pause_loop s))"
    by (rule pause_loop_preserves [where J = J]) (auto intro: kept_wait [OF k] J)
  show ?thesis
  proof (cases "pause_loop s")
    case (PollsForever s1)
    with P J kept_logs [OF k] show ?thesis by (simp add: iteration_def)
  next
    case (Returned s1)
    with P have J1: "J s1" by simp
    have "J (flow_state (attempt c e i ns nf s1))" if "sendingRef s1"
      by (rule attempt_preserves [OF k J1 that]) (use that pause_loop_returned [OF Returned] in auto)
    with Returned J J1 kept_logs [OF k] show ?thesis by (simp add: iteration_def)
  next
    case (Overlapped s1)
    with pause_loop_ending show ?thesis by blast
  qed
qed

lemma send_loop_preserves:
  "kept_by_steps c J \<Longrightarrow> J s \<Longrightarrow> J (snd (snd (state_of (send_loop c e i ns nf s))))"
proof (induction c e i ns nf s rule: send_loop.induct)
  case (1 c e i ns nf s)
  have it: "J (flow_state (iteration c e i ns nf s))"
    by (rule iteration_preserves) (use "1.prems" in auto)
  show ?case
  proof (cases "i < length (contacts c)")
    case False
    with "1.prems"(2) show ?thesis by (subst send_loop.simps) simp
  next
    case True
    show ?thesis
    proof (cases "iteration c e i ns nf s")
      case (Next ns' nf' s')
      with it have J': "J s'" by simp
      show ?thesis
      proof (cases "overlapped s'")
        case over: True
        with J' True Next show ?thesis by (subst send_loop.simps) simp
      next
        case False
        from "1.IH" [OF True Next False "1.prems"(1) J'] True Next False show ?thesis
          by (subst send_loop.simps) simp
      qed
    next
      case (Break ns' nf' s')
      with it True show ?thesis by (subst send_loop.simps) simp
    next
      case (Hang s')
      with it True show ?thesis by (subst send_loop.simps) simp
    qed
  qed
qed



lemma finishSending_fields [simp]:
  "trace (finishSending c e l ns nf s) = trace s"
  "progress (finishSending c e l ns nf s) = progress s"
  by (simp_all add: finishSending_def Let_def)

lemma fresh_fields [simp]:
  "trace (fresh e s) = []"
  "progress (fresh e s) = progress s"
  "log (fresh e s) = log s"
  "reports (fresh e s) = reports s"
  "sending (fresh e s) = sending s"
  "paused (fresh e s) = paused s"
  "sendingRef (fresh e s) = sendingRef s"
  "pausedRef (fresh e s) = pausedRef s"
  by (simp_all add: fresh_def)

lemma started_fields [simp]:
  "trace (started c e s0) = []"
  "progress (started c e s0) = progress s0"
  "sendingRef (started c e s0)"
  "sending (started c e s0)"
  "\<not> pausedRef (started c e s0)"
  by (simp_all add: started_def fresh_def)


lemma handleStart_guard:
  assumes "contacts c = [] \<or> messages c = []"
  shows "trace (state_of (handleStart c e s0)) = []"
    and "progress (state_of (handleStart c e s0)) = progress s0"
  using assms by (auto simp: handleStart_def fresh_def)

lemma handleStart_preserves:
  assumes k: "kept_by_steps c J" and J: "J (started c e s0)"
    and fin: "\<And>l a b s. J s \<Longrightarrow> J (finishSending c e l a b s)"
    and go: "contacts c \<noteq> []" "messages c \<noteq> []"
  shows "J (state_of (handleStart c e s0))"
proof -
  let ?r = "send_loop c e (sent (progress s0) + failed (progress s0))
              (sent (progress s0)) (failed (progress s0)) (started c e s0)"
  have l: "J (snd (snd (state_of ?r)))" by (rule send_loop_preserves [OF k J])
  show ?thesis
  proof (cases ?r)
    case (Returned x)
    obtain a b s' where x: "x = (a, b, s')" by (cases x)
    with Returned l have "J s'" by simp
    then have "J (finishSending c e (log s0) a b s')" by (rule fin)
    with Returned x go show ?thesis by (simp add: handleStart_def Let_def)
  next
    case (PollsForever x)
    obtain a b s' where x: "x = (a, b, s')" by (cases x)
    with PollsForever l go show ?thesis by (simp add: handleStart_def Let_def)
  next
    case (Overlapped x)
    obtain a b s' where x: "x = (a, b, s')" by (cases x)
    with Overlapped l go show ?thesis by (simp add: handleStart_def Let_def)
  qed
qed

subsection \<open>The progress invariant\<close>

lemma progress_kept_steps: "kept_by_steps c (progress_kept c)"
  by (simp add: kept_by_steps_def progress_kept_def)

lemma handleStart_progress_kept:
  assumes "progress_ok c (progress s0)"
  shows "progress_kept c (state_of (handleStart c e s0))"
proof (cases "contacts c = [] \<or> messages c = []")
  case True
  with assms handleStart_guard [OF True, of e s0] show ?thesis
    by (simp add: progress_kept_def)
next
  case False
  show ?thesis
    by (rule handleStart_preserves [OF progress_kept_steps])
       (use False assms in \<open>auto simp: progress_kept_def\<close>)
qed

lemma idle_progress_ok: "idle c s \<Longrightarrow> progress_ok c (progress s)"
proof (induction rule: idle.induct)
  case (mounted rs)
  show ?case by (simp add: initial_def progress_ok_def)
next
  case (returned s e s')
  from handleStart_progress_kept [OF returned.IH, of e] returned.hyps(2)
  show ?case by (simp add: progress_kept_def)
qed

text \<open>
  C1. In every state between runs, starting with the mounted component, and in every
  progress state set during a run (after each attempt, failed ones included) and at its end,
  \<open>sent + failed + pending = total\<close> holds and \<open>total\<close> is the length of the contact list.
\<close>

theorem progress_invariant:
  "idle c s \<Longrightarrow>
     progress_ok c (progress s)
     \<and> (\<forall>p. Progress p \<in> set (events (handleStart c e s)) \<longrightarrow> progress_ok c p)
     \<and> progress_ok c (progress (state_of (handleStart c e s)))"
proof -
  assume i: "idle c s"
  then have ok: "progress_ok c (progress s)" by (rule idle_progress_ok)
  from handleStart_progress_kept [OF ok, of e]
  have all: "list_all (event_ok c) (trace (state_of (handleStart c e s)))"
    and fin: "progress_ok c (progress (state_of (handleStart c e s)))"
    by (simp_all add: progress_kept_def)
  have "progress_ok c p" if "Progress p \<in> set (events (handleStart c e s))" for p
    using all that by (auto simp: events_def list_all_iff)
  with ok fin show ?thesis by blast
qed

subsection \<open>Stop\<close>

















subsection \<open>Durations\<close>




subsection \<open>Evaluating sample runs\<close>

lemma countdown_unfold:
  "countdown n s =
     (if n = 0 \<or> \<not> sendingRef s then s else countdown (n - 1) (delay InterMessage 1000 s))"
  by (cases n) simp_all

lemmas run_defs =
  handleStart_def started_def finishSending_def iteration_def attempt_def pace_def
  catch_error_def setProgress_def emit_def addLog_def delay_def next_signals_def click_def
  handlePause_def handleStop_def openWhatsAppWeb_def getRandomDelay_def getCooldownDelay_def
  round_seconds_def initial_def events_def truthy_def phone_def Let_def fresh_def
  send_loop.simps pause_loop.simps countdown_unfold
  batch_def all_open_def amara_def greeting_def


theorem progress_invariant_witness:
  "idle (batch 2) (initial (batch 2) [])
   \<and> progress_ok (batch 2) (progress (initial (batch 2) []))
   \<and> progress_ok (batch 2)
        (progress (state_of (handleStart (batch 2) all_open (initial (batch 2) []))))"
  using progress_invariant [OF idle.mounted, of "batch 2" "[]" all_open]
    idle.mounted [of "batch 2" "[]"]
  by simp

subsection \<open>Pause\<close>















lemma setProgress_flags [simp]:
  "paused (setProgress c a b s) = paused s"
  "flags_kept (setProgress c a b s) = flags_kept s"
  by (simp_all add: setProgress_def Let_def emit_def flags_kept_def)

lemma flags_kept_simps [simp]:
  "flags_kept (addLog ph stat m s) = flags_kept s"
  "flags_kept (emit ev s) = flags_kept s"
  by (simp_all add: flags_kept_def)




lemma finishSending_paused [simp]: "paused (finishSending c e l a b s) = paused s"
  by (simp add: finishSending_def Let_def addLog_def)




subsection \<open>The length of the wait\<close>


lemma due_is_addLog [simp]: "due_is c e k (addLog ph stat m s) = due_is c e k s"
  by (simp add: due_is_def)











subsection \<open>Stop and pause during the waits\<close>




text \<open>
  A run that is overlapped: with three contacts, the user clicks Stop and then Start during
  the first second of the wait after the first message. The model follows the run up to
  that second.
\<close>

lemma stop_then_start_run:
  "overlapping (handleStart (batch 3) (all_open\<lparr>signals := [[Stop, Start]]\<rparr>)
                  (initial (batch 3) []))"
  "events (handleStart (batch 3) (all_open\<lparr>signals := [[Stop, Start]]\<rparr>) (initial (batch 3) []))
     = [Attempt 0, Open 0 Window, Progress \<lparr>sent = 1, failed = 0, pending = 2, total = 3\<rparr>,
        Await InterMessage 1000 [Stop, Start]]"
  by (simp_all add: run_defs)




subsection \<open>Start after completion\<close>

lemma percent_complete:
  "0 < total p \<Longrightarrow> sent p + failed p = total p \<Longrightarrow> progressPercent rounded p = 100"
  by (simp add: progressPercent_def)

text \<open>
  C6. In a state in which \<open>sent + failed\<close> has reached \<open>total\<close>, the progress state
  satisfying the invariant of C1, a click on Start is without effect: with contacts, the
  button is disabled, and without contacts \<open>handleStart\<close> returns at its guard. No attempt
  and no call of \<open>openWhatsAppWeb\<close> is made, and the progress state, the log and the
  stored reports stay as they are.
\<close>

theorem start_when_completed_is_noop:
  "progress_ok c (progress s) \<Longrightarrow> sent (progress s) + failed (progress s) = total (progress s) \<Longrightarrow>
     clickStart rounded c e s = Returned (fresh e s)
     \<and> events (clickStart rounded c e s) = []
     \<and> progress (state_of (clickStart rounded c e s)) = progress s
     \<and> log (state_of (clickStart rounded c e s)) = log s
     \<and> reports (state_of (clickStart rounded c e s)) = reports s
     \<and> sending (state_of (clickStart rounded c e s)) = sending s"
proof -
  assume ok: "progress_ok c (progress s)"
    and full: "sent (progress s) + failed (progress s) = total (progress s)"
  have "clickStart rounded c e s = Returned (fresh e s)"
  proof (cases "0 < total (progress s)")
    case True
    from percent_complete [OF True full] have "\<not> start_button_enabled rounded s"
      by (simp add: start_button_enabled_def)
    then show ?thesis by (simp add: clickStart_def)
  next
    case False
    with ok have "contacts c = []" by (simp add: progress_ok_def)
    then show ?thesis by (simp add: clickStart_def handleStart_def)
  qed
  then show ?thesis by (simp add: events_def)
qed

lemma completed_state:
  "completed =
     \<lparr>sending = False, paused = False, sendingRef = False, pausedRef = False,
      progress = \<lparr>sent = 1, failed = 0, pending = 0, total = 1\<rparr>,
      log = [LogEntry SYSTEM Info (BatchComplete 1 0),
             LogEntry (Phone (Some ''+256712345678'')) Sent OpenedInWhatsApp,
             LogEntry (Phone (Some ''+256712345678'')) Sending Preparing,
             LogEntry SYSTEM Info (Starting 1)],
      reports = [Report 1 1 0 []], sched = [],
      trace = [Progress \<lparr>sent = 1, failed = 0, pending = 0, total = 1\<rparr>, Open 0 Window,
               Attempt 0],
      overlapped = False\<rparr>"
  by (simp add: completed_def run_defs)

theorem start_when_completed_is_noop_witness:
  "progress_ok (batch 1) (progress completed)
   \<and> sent (progress completed) + failed (progress completed) = total (progress completed)
   \<and> clickStart (\<lambda>n t. 0) (batch 1) all_open completed = Returned (fresh all_open completed)
   \<and> events (clickStart (\<lambda>n t. 0) (batch 1) all_open completed) = []
   \<and> log (state_of (clickStart (\<lambda>n t. 0) (batch 1) all_open completed)) = log completed
   \<and> reports (state_of (clickStart (\<lambda>n t. 0) (batch 1) all_open completed)) = [Report 1 1 0 []]"
proof -
  have ok: "progress_ok (batch 1) (progress completed)"
    by (simp add: completed_state progress_ok_def batch_def)
  have full: "sent (progress completed) + failed (progress completed) = total (progress completed)"
    by (simp add: completed_state)
  have "reports completed = [Report 1 1 0 []]" by (simp add: completed_state)
  with start_when_completed_is_noop [OF ok full, of "\<lambda>n t. 0" all_open] ok full
  show ?thesis by (simp add: events_def)
qed

subsection \<open>Cooldown\<close>

text \<open>
  C3 fails in the code at the following run. There are 22 contacts; the window opens for every
  contact but the one at index 20, whose popup is blocked; the user clicks nothing. The
  calls and the cooldown delays of the run, in order: the cooldown is inserted after the
  twentieth successful send and once more after the failed attempt that follows it, while
  \<open>sent\<close> is still 20.
\<close>

theorem cooldown_after_failed_attempt:
  "calls_and_cooldowns
     (events (handleStart (batch 22)
                (all_open\<lparr>browser := (\<lambda>i. if i = 20 then Null else Window)\<rparr>)
                (initial (batch 22) [])))
   = [Open 0 Window, Open 1 Window, Open 2 Window, Open 3 Window, Open 4 Window,
      Open 5 Window, Open 6 Window, Open 7 Window, Open 8 Window, Open 9 Window,
      Open 10 Window, Open 11 Window, Open 12 Window, Open 13 Window, Open 14 Window,
      Open 15 Window, Open 16 Window, Open 17 Window, Open 18 Window, Open 19 Window,
      Await Cooldown 30000 [],
      Open 20 Null,
      Await Cooldown 30000 [],
      Open 21 Window]"
  by (simp add: run_defs)


end
